theory Spec2Isabelle
  imports Main "HOL-Library.Multiset"
begin

section \<open>Emphasis formatter (\<open>formatEmphasis\<close> of the titles page)\<close>

text \<open>
  JavaScript strings are sequences of code units. The formatter only ever compares a
  code unit with the delimiter \<open>*\<close>, so a string is modelled as a \<open>char list\<close>.
\<close>

definition star :: char where
  "star = CHR ''*''"

text \<open>
  One attempt of the regular expression \<open>\*[^*]+\*\<close> anchored at the head of the
  remaining text: the delimiter, the longest run of non-delimiters (at least one), and
  the closing delimiter. The result is the matched text and what follows it. The run is
  greedy, and giving characters back cannot help: the character after a shorter run is
  not a delimiter.
\<close>

fun match_at :: "string \<Rightarrow> (string \<times> string) option" where
  "match_at [] = None"
| "match_at (c # cs) =
     (if c \<noteq> star then None
      else (let inner = takeWhile (\<lambda>x. x \<noteq> star) cs;
                after = dropWhile (\<lambda>x. x \<noteq> star) cs
            in if inner = [] then None
               else (case after of
                       [] \<Rightarrow> None
                     | d # rest \<Rightarrow> Some (c # inner @ [d], rest))))"

text \<open>
  \<open>text.split(/(\*[^*]+\*)/g)\<close>: the scan of \<open>String.prototype.split\<close> with a
  capturing group. \<open>acc\<close> is the text between the end of the last match and the current
  position. Where the expression matches, the text before it and the captured match are
  both emitted; elsewhere the position advances by one. The text after the last match
  is emitted at the end, also when it is empty.
\<close>

function split_go :: "string \<Rightarrow> string \<Rightarrow> string list" where
  "split_go acc [] = [acc]"
| "split_go acc (c # cs) =
     (case match_at (c # cs) of
        None \<Rightarrow> split_go (acc @ [c]) cs
      | Some (m, rest) \<Rightarrow> acc # m # split_go [] rest)"
  by pat_completeness auto
termination
proof (relation "measure (\<lambda>(acc, s). length s)")
  show "wf (measure (\<lambda>(acc, s). length s))" by simp
next
  fix acc :: string and c cs
  show "((acc @ [c], cs), (acc, c # cs)) \<in> measure (\<lambda>(acc, s). length s)" by simp
next
  fix acc :: string and c cs x2 m rest
  assume "match_at (c # cs) = Some x2" and "(m, rest) = x2"
  then have "length rest < length (c # cs)"
    using length_dropWhile_le [of "\<lambda>x. x \<noteq> star" cs]
    by (auto simp: Let_def split: if_splits list.splits)
  then show "(([], rest), (acc, c # cs)) \<in> measure (\<lambda>(acc, s). length s)" by simp
qed

definition split_emphasis :: "string \<Rightarrow> string list" where
  "split_emphasis text = split_go [] text"

text \<open>\<open>s.startsWith(p)\<close> and \<open>s.endsWith(p)\<close>.\<close>

definition startsWith :: "string \<Rightarrow> string \<Rightarrow> bool" where
  "startsWith s p = (take (length p) s = p)"

definition endsWith :: "string \<Rightarrow> string \<Rightarrow> bool" where
  "endsWith s p = (length p \<le> length s \<and> drop (length s - length p) s = p)"

text \<open>
  \<open>s.slice(start, end)\<close>: a negative index counts from the end, and both indices are
  clamped to the string.
\<close>

definition slice :: "string \<Rightarrow> int \<Rightarrow> int \<Rightarrow> string" where
  "slice s start end =
     (let len = int (length s);
          from = (if start < 0 then max (len + start) 0 else min start len);
          to = (if end < 0 then max (len + end) 0 else min end len)
      in take (nat (max (to - from) 0)) (drop (nat from) s))"

text \<open>The nodes the formatter returns: \<open><em>\<close> and \<open><React.Fragment>\<close>.\<close>

datatype node = Em string | Fragment string

definition format_part :: "string \<Rightarrow> node" where
  "format_part part =
     (if startsWith part [star] \<and> endsWith part [star] \<and> length part \<ge> 2
      then Em (slice part 1 (- 1))
      else Fragment part)"

definition formatEmphasis :: "string \<Rightarrow> node list" where
  "formatEmphasis text = map format_part (split_emphasis text)"

text \<open>What a node stands for in the source text: an emphasised node is wrapped again.\<close>

fun unformat :: "node \<Rightarrow> string" where
  "unformat (Em s) = star # s @ [star]"
| "unformat (Fragment s) = s"

section \<open>Properties of the emphasis formatter\<close>

lemma match_at_append: "match_at s = Some (m, rest) \<Longrightarrow> s = m @ rest"
proof (cases s)
  case Nil
  assume "match_at s = Some (m, rest)"
  with Nil show ?thesis by simp
next
  case (Cons c cs)
  assume h: "match_at s = Some (m, rest)"
  have id: "takeWhile (\<lambda>x. x \<noteq> star) cs @ dropWhile (\<lambda>x. x \<noteq> star) cs = cs"
    by simp
  from h Cons obtain d where
    "dropWhile (\<lambda>x. x \<noteq> star) cs = d # rest"
    "m = c # takeWhile (\<lambda>x. x \<noteq> star) cs @ [d]"
    by (auto simp: Let_def split: if_splits list.splits)
  with id Cons show ?thesis
    by (metis append.assoc append_Cons append_Nil)
qed

lemma concat_split_go: "concat (split_go acc s) = acc @ s"
proof (induction acc s rule: split_go.induct)
  case (1 acc)
  show ?case by simp
next
  case (2 acc c cs)
  show ?case
  proof (cases "match_at (c # cs)")
    case None
    with 2 show ?thesis by simp
  next
    case (Some p)
    obtain m rest where p: "p = (m, rest)" by (cases p)
    from Some p have eq: "c # cs = m @ rest" by (simp add: match_at_append)
    from Some p have step: "split_go acc (c # cs) = acc # m # split_go [] rest" by simp
    from p have ih: "concat (split_go [] rest) = [] @ rest"
      by (intro "2.IH"(2) [OF Some]) simp
    from ih have "concat (split_go acc (c # cs)) = acc @ m @ rest"
      by (simp only: step) simp
    then show ?thesis by (simp only: eq)
  qed
qed

lemma slice_inner: "slice (c # mid @ [d]) 1 (- 1) = mid"
  by (simp add: slice_def Let_def)

lemma unformat_format_part: "unformat (format_part p) = p"
proof (cases "startsWith p [star] \<and> endsWith p [star] \<and> length p \<ge> 2")
  case False
  then show ?thesis by (auto simp: format_part_def)
next
  case True
  then obtain c q where pc: "p = c # q" by (cases p) auto
  with True have "q \<noteq> []" by auto
  then obtain mid d where q: "q = mid @ [d]" by (metis rev_exhaust)
  from True pc q have "c = star" "d = star"
    by (auto simp: startsWith_def endsWith_def)
  with True pc q show ?thesis
    by (simp add: format_part_def slice_inner del: One_nat_def)
qed

text \<open>
  C10. Writing the nodes of \<open>formatEmphasis text\<close> back in order, an emphasised node
  between two delimiters and a plain node as it is, gives \<open>text\<close> again: the split
  loses and reorders nothing.
\<close>

theorem formatEmphasis_roundtrip:
  "concat (map unformat (formatEmphasis text)) = text"
proof -
  have "map unformat (formatEmphasis text) = split_emphasis text"
    by (simp add: formatEmphasis_def unformat_format_part comp_def)
  then show ?thesis
    by (simp add: split_emphasis_def concat_split_go)
qed

lemma split_go_plain: "star \<notin> set a \<Longrightarrow> split_go acc (a @ s) = split_go (acc @ a) s"
  by (induction a arbitrary: acc) auto

lemma match_at_delimited:
  assumes "star \<notin> set x" and "x \<noteq> []"
  shows "match_at (star # x @ star # rest) = Some (star # x @ [star], rest)"
proof -
  from assms(1) have "takeWhile (\<lambda>c. c \<noteq> star) (x @ star # rest) = x"
    by (induction x) auto
  moreover from assms(1) have "dropWhile (\<lambda>c. c \<noteq> star) (x @ star # rest) = star # rest"
    by (induction x) auto
  ultimately show ?thesis using assms(2) by simp
qed

lemma format_part_delimited: "format_part (star # x @ [star]) = Em x"
  by (simp add: format_part_def startsWith_def endsWith_def slice_inner del: One_nat_def)

text \<open>
  C1. A lone delimiter stays plain text: \<open>"*"\<close> gives the one plain node \<open>"*"\<close>. The
  empty pair does not: the expression does not match \<open>"**"\<close>, so the split returns it
  as one part, and the test that recognises a captured part (starts with the delimiter,
  ends with it, length at least 2) accepts that part. The result is one emphasised node
  with empty content and the two characters are not shown. The same two characters after
  other text stay plain.
\<close>

theorem formatEmphasis_empty_pair:
  "formatEmphasis ''*'' = [Fragment ''*''] \<and>
   formatEmphasis ''**'' = [Em ''''] \<and>
   formatEmphasis ''a**'' = [Fragment ''a**'']"
  by (simp add: formatEmphasis_def split_emphasis_def format_part_def startsWith_def
      endsWith_def slice_def star_def)

lemma match_at_star_run: "match_at (star # replicate k star @ star # s) = None"
  by (cases k) simp_all

lemma match_at_unclosed:
  assumes "star \<notin> set c"
  shows "match_at (star # c) = None"
proof -
  from assms have "dropWhile (\<lambda>x. x \<noteq> star) c = []" by (induction c) auto
  then show ?thesis by (simp add: Let_def del: dropWhile_eq_Nil_conv)
qed

lemma match_at_stars_unclosed:
  assumes "star \<notin> set c"
  shows "match_at (star # replicate k star @ c) = None"
proof (cases k)
  case 0
  with assms show ?thesis using match_at_unclosed [of c] by simp
next
  case (Suc j)
  then show ?thesis by simp
qed

lemma split_go_stars_unclosed:
  assumes "star \<notin> set c"
  shows "split_go acc (replicate k star @ c) = [acc @ replicate k star @ c]"
proof (induction k arbitrary: acc)
  case 0
  from assms have "split_go acc (c @ []) = split_go (acc @ c) []" by (rule split_go_plain)
  then show ?case by simp
next
  case (Suc k)
  have "split_go acc (replicate (Suc k) star @ c) = split_go (acc @ [star]) (replicate k star @ c)"
    using match_at_stars_unclosed [OF assms, of k] by simp
  also have "\<dots> = [(acc @ [star]) @ replicate k star @ c]" by (rule Suc.IH)
  finally show ?case by simp
qed

lemma split_go_stars_delimited:
  assumes "star \<notin> set x" and "x \<noteq> []"
  shows "split_go acc (replicate k star @ star # x @ star # rest)
         = (acc @ replicate k star) # (star # x @ [star]) # split_go [] rest"
proof (induction k arbitrary: acc)
  case 0
  show ?case using match_at_delimited [OF assms, of rest] by simp
next
  case (Suc k)
  have "split_go acc (replicate (Suc k) star @ star # x @ star # rest)
        = split_go (acc @ [star]) (replicate k star @ star # x @ star # rest)"
    using match_at_star_run [of k "x @ star # rest"] by simp
  also have "\<dots> = ((acc @ [star]) @ replicate k star) # (star # x @ [star]) # split_go [] rest"
    by (rule Suc.IH)
  finally show ?case by simp
qed

lemma format_part_not_run:
  assumes "star \<notin> set b" and "star \<notin> set c" and "b \<noteq> [] \<or> c \<noteq> [] \<or> k \<le> 1"
  shows "format_part (b @ replicate k star @ c) = Fragment (b @ replicate k star @ c)"
proof (cases b)
  case (Cons d b')
  with assms(1) show ?thesis by (auto simp: format_part_def startsWith_def)
next
  case Nil
  show ?thesis
  proof (cases "c = []")
    case False
    then obtain c' e where c: "c = c' @ [e]" by (metis rev_exhaust)
    with assms(2) have "e \<noteq> star" by auto
    then have "\<not> endsWith (b @ replicate k star @ c) [star]"
      unfolding c endsWith_def by (simp flip: append_assoc)
    then show ?thesis by (simp add: format_part_def)
  next
    case True
    with Nil assms(3) have "k = 0 \<or> k = 1" by auto
    with Nil True show ?thesis by (auto simp: format_part_def startsWith_def)
  qed
qed

lemma text_forms:
  "(\<exists>b k c. star \<notin> set b \<and> star \<notin> set c \<and> text = b @ replicate k star @ c) \<or>
   (\<exists>b k x rest. star \<notin> set b \<and> star \<notin> set x \<and> x \<noteq> [] \<and>
      text = b @ replicate k star @ star # x @ star # rest)"
proof -
  define b where "b = takeWhile (\<lambda>c. c \<noteq> star) text"
  define r where "r = dropWhile (\<lambda>c. c \<noteq> star) text"
  define j where "j = length (takeWhile (\<lambda>c. c = star) r)"
  define r' where "r' = dropWhile (\<lambda>c. c = star) r"
  define x where "x = takeWhile (\<lambda>c. c \<noteq> star) r'"
  define r'' where "r'' = dropWhile (\<lambda>c. c \<noteq> star) r'"
  have b: "star \<notin> set b" unfolding b_def by (auto dest: set_takeWhileD)
  have x: "star \<notin> set x" unfolding x_def by (auto dest: set_takeWhileD)
  have run: "takeWhile (\<lambda>c. c = star) r = replicate j star"
    unfolding j_def by (induction r) auto
  have t1: "text = b @ r" unfolding b_def r_def by simp
  have t2: "r = replicate j star @ r'" unfolding r'_def using run by (metis takeWhile_dropWhile_id)
  have t3: "r' = x @ r''" unfolding x_def r''_def by simp
  show ?thesis
  proof (cases "r'' = []")
    case True
    with t1 t2 t3 have "text = b @ replicate j star @ x" by simp
    with b x show ?thesis by blast
  next
    case False
    then obtain rest where r'': "r'' = star # rest"
      unfolding r''_def using hd_dropWhile [of "\<lambda>c. c \<noteq> star" r']
      by (cases "dropWhile (\<lambda>c. c \<noteq> star) r'") auto
    have xne: "x \<noteq> []"
    proof
      assume "x = []"
      with t3 r'' have "r' = star # rest" by simp
      moreover have "r' = [] \<or> hd r' \<noteq> star"
        unfolding r'_def using hd_dropWhile [of "\<lambda>c. c = star" r] by blast
      ultimately show False by simp
    qed
    from xne t3 have "r' \<noteq> []" by auto
    have jpos: "j > 0"
    proof (rule ccontr)
      assume "\<not> j > 0"
      then have "r = r'" using t2 by simp
      moreover have "r = [] \<or> hd r = star"
        unfolding r_def using hd_dropWhile [of "\<lambda>c. c \<noteq> star" "text"] by blast
      moreover have "hd r' \<noteq> star" using xne x t3 by (cases x) auto
      ultimately show False using \<open>r' \<noteq> []\<close> by auto
    qed
    then obtain k where k: "j = Suc k" by (cases j) auto
    have "replicate (Suc k) star = replicate k star @ [star]"
      by (simp add: replicate_append_same)
    with t1 t2 t3 r'' k have "text = b @ replicate k star @ star # x @ star # rest" by simp
    with b x xne show ?thesis by blast
  qed
qed

lemma formatEmphasis_unmatched_parts:
  assumes "star \<notin> set b" and "star \<notin> set c"
  shows "formatEmphasis (b @ replicate k star @ c) = [format_part (b @ replicate k star @ c)]"
proof -
  have "split_go [] (b @ replicate k star @ c) = split_go ([] @ b) (replicate k star @ c)"
    using assms(1) by (rule split_go_plain)
  also have "\<dots> = [([] @ b) @ replicate k star @ c]"
    using assms(2) by (rule split_go_stars_unclosed)
  finally show ?thesis
    by (simp add: formatEmphasis_def split_emphasis_def)
qed

lemma formatEmphasis_matched_parts:
  assumes "star \<notin> set b" and "star \<notin> set x" and "x \<noteq> []"
  shows "formatEmphasis (b @ replicate k star @ star # x @ star # rest)
         = format_part (b @ replicate k star) # Em x # formatEmphasis rest"
proof -
  have "split_go [] (b @ replicate k star @ star # x @ star # rest)
        = split_go ([] @ b) (replicate k star @ star # x @ star # rest)"
    using assms(1) by (rule split_go_plain)
  also have "\<dots> = (([] @ b) @ replicate k star) # (star # x @ [star]) # split_go [] rest"
    using assms(2,3) by (rule split_go_stars_delimited)
  finally have split: "split_go [] (b @ replicate k star @ star # x @ star # rest)
        = (b @ replicate k star) # (star # x @ [star]) # split_go [] rest" by simp
  show ?thesis
    by (simp add: formatEmphasis_def split_emphasis_def split format_part_delimited)
qed

lemma format_part_prefix:
  assumes "star \<notin> set b" and "b \<noteq> [] \<or> k \<le> 1"
  shows "format_part (b @ replicate k star) = Fragment (b @ replicate k star)"
proof -
  have "format_part (b @ replicate k star @ []) = Fragment (b @ replicate k star @ [])"
    using assms by (intro format_part_not_run) auto
  then show ?thesis by simp
qed

text \<open>
  C8, as stated. At \<open>"*word*"\<close> the result is not the single emphasised node: the split
  with a capturing group also returns the text before the first match and after the last
  one, here both empty, and each becomes a plain node (an empty one, which shows nothing).
  At \<open>"***"\<close>, which holds no non-empty span between two delimiters, the result is one
  emphasised node \<open>"*"\<close> where the rule gives plain text.
\<close>

theorem formatEmphasis_rule_counterexample:
  "formatEmphasis ''*word*'' = [Fragment '''', Em ''word'', Fragment ''''] \<and>
   formatEmphasis ''*word*'' \<noteq> [Em ''word''] \<and>
   formatEmphasis ''***'' = [Em ''*''] \<and>
   formatEmphasis ''***'' \<noteq> [Fragment ''***'']"
  by (simp add: formatEmphasis_def split_emphasis_def format_part_def startsWith_def
      endsWith_def slice_def star_def)

text \<open>
  C8, amended. Every text \<open>s\<close> has one of two forms, with \<open>b\<close>, \<open>c\<close> and \<open>x\<close> free of the
  delimiter: \<open>b\<close>, a run of \<open>k\<close> delimiters and \<open>c\<close>, which holds no delimiter pair around
  a non-empty span; or \<open>b\<close>, a run of \<open>k\<close> delimiters, then a delimiter, a non-empty \<open>x\<close>,
  the next delimiter and the rest. A text of the first form gives one node, which is the
  whole text as plain text, lone and unmatched delimiters included. A text of the second
  form gives a node for \<open>b\<close> with the run, which is that text as plain text (present also
  when it is empty), then the emphasised node \<open>x\<close>, then the nodes of the rest. Left out
  is only which node a part becomes that consists of two or more delimiters. So
  \<open>"plain"\<close> gives one plain node, \<open>"*word*"\<close> gives the emphasised node \<open>"word"\<close> between
  two empty plain nodes, \<open>"a *b* c"\<close> gives plain \<open>"a "\<close>, emphasised \<open>"b"\<close>, plain
  \<open>" c"\<close>, and \<open>"a*b"\<close> and \<open>"5 * 3"\<close> stay one plain node.
\<close>

theorem formatEmphasis_segments:
  "((\<exists>b k c. star \<notin> set b \<and> star \<notin> set c \<and> s = b @ replicate k star @ c) \<or>
    (\<exists>b k x rest. star \<notin> set b \<and> star \<notin> set x \<and> x \<noteq> [] \<and>
       s = b @ replicate k star @ star # x @ star # rest)) \<and>
   (star \<notin> set b \<and> star \<notin> set c \<longrightarrow>
      (\<exists>n. formatEmphasis (b @ replicate k star @ c) = [n] \<and>
           (b \<noteq> [] \<or> c \<noteq> [] \<or> k \<le> 1 \<longrightarrow> n = Fragment (b @ replicate k star @ c)))) \<and>
   (star \<notin> set b \<and> star \<notin> set x \<and> x \<noteq> [] \<longrightarrow>
      (\<exists>n. formatEmphasis (b @ replicate k star @ star # x @ star # rest)
             = n # Em x # formatEmphasis rest \<and>
           (b \<noteq> [] \<or> k \<le> 1 \<longrightarrow> n = Fragment (b @ replicate k star)))) \<and>
   formatEmphasis ''plain'' = [Fragment ''plain''] \<and>
   formatEmphasis ''*word*'' = [Fragment '''', Em ''word'', Fragment ''''] \<and>
   formatEmphasis ''a *b* c'' = [Fragment ''a '', Em ''b'', Fragment '' c''] \<and>
   formatEmphasis ''a*b'' = [Fragment ''a*b''] \<and>
   formatEmphasis ''5 * 3'' = [Fragment ''5 * 3'']"
proof (intro conjI impI)
  show "(\<exists>b k c. star \<notin> set b \<and> star \<notin> set c \<and> s = b @ replicate k star @ c) \<or>
    (\<exists>b k x rest. star \<notin> set b \<and> star \<notin> set x \<and> x \<noteq> [] \<and>
       s = b @ replicate k star @ star # x @ star # rest)"
    by (rule text_forms)
next
  assume h: "star \<notin> set b \<and> star \<notin> set c"
  then have "formatEmphasis (b @ replicate k star @ c) = [format_part (b @ replicate k star @ c)]"
    by (intro formatEmphasis_unmatched_parts) simp_all
  moreover have "b \<noteq> [] \<or> c \<noteq> [] \<or> k \<le> 1 \<longrightarrow>
      format_part (b @ replicate k star @ c) = Fragment (b @ replicate k star @ c)"
    using h by (intro impI format_part_not_run) simp_all
  ultimately show "\<exists>n. formatEmphasis (b @ replicate k star @ c) = [n] \<and>
           (b \<noteq> [] \<or> c \<noteq> [] \<or> k \<le> 1 \<longrightarrow> n = Fragment (b @ replicate k star @ c))"
    by blast
next
  assume h: "star \<notin> set b \<and> star \<notin> set x \<and> x \<noteq> []"
  then have "formatEmphasis (b @ replicate k star @ star # x @ star # rest)
        = format_part (b @ replicate k star) # Em x # formatEmphasis rest"
    by (intro formatEmphasis_matched_parts) simp_all
  moreover have "b \<noteq> [] \<or> k \<le> 1 \<longrightarrow>
      format_part (b @ replicate k star) = Fragment (b @ replicate k star)"
    using h by (intro impI format_part_prefix) simp_all
  ultimately show "\<exists>n. formatEmphasis (b @ replicate k star @ star # x @ star # rest)
             = n # Em x # formatEmphasis rest \<and>
           (b \<noteq> [] \<or> k \<le> 1 \<longrightarrow> n = Fragment (b @ replicate k star))"
    by blast
next
  show "formatEmphasis ''plain'' = [Fragment ''plain'']"
    by (simp add: formatEmphasis_def split_emphasis_def format_part_def startsWith_def star_def)
next
  show "formatEmphasis ''*word*'' = [Fragment '''', Em ''word'', Fragment '''']"
    by (simp add: formatEmphasis_def split_emphasis_def format_part_def startsWith_def
        endsWith_def slice_def star_def)
next
  show "formatEmphasis ''a *b* c'' = [Fragment ''a '', Em ''b'', Fragment '' c'']"
    by (simp add: formatEmphasis_def split_emphasis_def format_part_def startsWith_def
        endsWith_def slice_def star_def)
next
  show "formatEmphasis ''a*b'' = [Fragment ''a*b'']"
    by (simp add: formatEmphasis_def split_emphasis_def format_part_def startsWith_def
        endsWith_def slice_def star_def)
next
  show "formatEmphasis ''5 * 3'' = [Fragment ''5 * 3'']"
    by (simp add: formatEmphasis_def split_emphasis_def format_part_def startsWith_def
        endsWith_def slice_def star_def)
qed

theorem formatEmphasis_segments_witness:
  "formatEmphasis ''c*'' = [Fragment ''c*''] \<and>
   formatEmphasis ''x **yz* w'' = [Fragment ''x *'', Em ''yz'', Fragment '' w'']"
proof -
  have c: "star \<notin> set ''c'' \<and> star \<notin> set ''''" by (simp add: star_def)
  have c': "''c'' \<noteq> [] \<or> '''' \<noteq> [] \<or> (1::nat) \<le> 1" by simp
  have x: "star \<notin> set ''x '' \<and> star \<notin> set ''yz'' \<and> ''yz'' \<noteq> []" by (simp add: star_def)
  have x': "''x '' \<noteq> [] \<or> (1::nat) \<le> 1" by simp
  have w: "star \<notin> set '' w'' \<and> star \<notin> set ''''" by (simp add: star_def)
  have w': "'' w'' \<noteq> [] \<or> '''' \<noteq> [] \<or> (0::nat) \<le> 1" by simp
  note t1 = formatEmphasis_segments [of "''c''" "''c''" "''''" 1 "''yz''" "''''",
      THEN conjunct2, THEN conjunct1]
  note t2 = formatEmphasis_segments [of "''c''" "'' w''" "''''" 0 "''yz''" "''''",
      THEN conjunct2, THEN conjunct1]
  note t3 = formatEmphasis_segments [of "''c''" "''x ''" "''''" 1 "''yz''" "'' w''",
      THEN conjunct2, THEN conjunct2, THEN conjunct1]
  from t1 c c'
  have "formatEmphasis (''c'' @ replicate 1 star @ '''') = [Fragment (''c'' @ replicate 1 star @ '''')]"
    by blast
  then have a: "formatEmphasis ''c*'' = [Fragment ''c*'']" by (simp add: star_def)
  from t2 w w'
  have "formatEmphasis ('' w'' @ replicate 0 star @ '''') = [Fragment ('' w'' @ replicate 0 star @ '''')]"
    by blast
  then have r: "formatEmphasis '' w'' = [Fragment '' w'']" by simp
  from t3 x x'
  have "formatEmphasis (''x '' @ replicate 1 star @ star # ''yz'' @ star # '' w'')
      = Fragment (''x '' @ replicate 1 star) # Em ''yz'' # formatEmphasis '' w''"
    by blast
  with r have "formatEmphasis ''x **yz* w'' = [Fragment ''x *'', Em ''yz'', Fragment '' w'']"
    by (simp add: star_def)
  with a show ?thesis by simp
qed

section \<open>Host router (\<open>middleware\<close>)\<close>

text \<open>
  A middleware sees a request through its \<open>host\<close> header (which may be absent) and
  \<open>request.nextUrl.pathname\<close>. That is the path as the framework hands it over: for a
  data request (\<open>/_next/data/<buildId>/....json\<close>) it is the path of the page, not the
  path that was sent. The answer is \<open>NextResponse.next()\<close> or
  \<open>NextResponse.rewrite(url)\<close>, the latter with the new path of \<open>url\<close>.
\<close>

datatype response = Next | Rewrite string

text \<open>\<open>request.headers.get("host") || ""\<close>: an absent header reads as the empty string.\<close>

definition host_header :: "string option \<Rightarrow> string" where
  "host_header h = (case h of None \<Rightarrow> [] | Some s \<Rightarrow> s)"

text \<open>\<open>host.split(":")[0]\<close>: the text before the first colon.\<close>

definition hostname_of :: "string \<Rightarrow> string" where
  "hostname_of host = takeWhile (\<lambda>c. c \<noteq> CHR '':'') host"

text \<open>
  The middleware of \<open>src/middleware.ts\<close> and its twin for the \<open>topics\<close> subdomain. The two
  differ in the subdomain and the target page only, which are the parameters \<open>sub\<close>
  (with its dot) and \<open>target\<close> here.
\<close>

definition middleware_fixed :: "string \<Rightarrow> string \<Rightarrow> string option \<Rightarrow> string \<Rightarrow> response" where
  "middleware_fixed sub target h pathname =
     (let host = host_header h;
          hostname = hostname_of host
      in if startsWith hostname sub then
           if startsWith pathname ''/_next'' \<or> pathname = ''/favicon.ico''
              \<or> startsWith pathname ''/public/''
           then Next
           else if pathname \<noteq> target then Rewrite target
           else Next
         else Next)"

definition middleware_titles :: "string option \<Rightarrow> string \<Rightarrow> response" where
  "middleware_titles = middleware_fixed ''titles.'' ''/titles''"

definition middleware_topics :: "string option \<Rightarrow> string \<Rightarrow> response" where
  "middleware_topics = middleware_fixed ''topics.'' ''/topics''"

text \<open>The third middleware keeps the sub-path under the target page.\<close>

definition middleware_subpaths :: "string option \<Rightarrow> string \<Rightarrow> response" where
  "middleware_subpaths h pathname =
     (let host = host_header h
      in if startsWith host ''titles.'' then
           if pathname = ''/'' \<or> pathname = '''' then Rewrite ''/titles''
           else if \<not> startsWith pathname ''/titles'' then Rewrite (''/titles'' @ pathname)
           else Next
         else Next)"

text \<open>
  The framework calls a middleware only for the paths its \<open>config.matcher\<close> accepts; any
  other request passes through. The matcher of the first two middlewares is \<open>/:path*\<close>;
  what is proved of them holds under any matcher (that accepts \<open>/\<close>, where the path \<open>/\<close>
  is rewritten).
\<close>

definition route :: "(string \<Rightarrow> bool) \<Rightarrow> (string option \<Rightarrow> string \<Rightarrow> response)
    \<Rightarrow> string option \<Rightarrow> string \<Rightarrow> response" where
  "route matcher mw h pathname = (if matcher pathname then mw h pathname else Next)"

text \<open>
  The matcher of the third middleware, \<open>/((?!_next/static|_next/image|favicon.ico).*)\<close>,
  on the whole path: a slash, then text that does not begin with one of the three
  alternatives. The dot of the expression stands for any character but a line break,
  also inside \<open>favicon.ico\<close>.
\<close>

definition dot :: "char \<Rightarrow> bool" where
  "dot c = (c \<noteq> CHR 0x0A \<and> c \<noteq> CHR 0x0D)"

definition favicon_ico :: "string \<Rightarrow> bool" where
  "favicon_ico s =
     (startsWith s ''favicon'' \<and> (case drop 7 s of [] \<Rightarrow> False
                                   | c # t \<Rightarrow> dot c \<and> startsWith t ''ico''))"

definition excluded :: "string \<Rightarrow> bool" where
  "excluded s = (startsWith s ''_next/static'' \<or> startsWith s ''_next/image'' \<or> favicon_ico s)"

definition matcher_subpaths :: "string \<Rightarrow> bool" where
  "matcher_subpaths pathname =
     (case pathname of
        [] \<Rightarrow> False
      | c # s \<Rightarrow> c = CHR ''/'' \<and> \<not> excluded s \<and> list_all dot s)"

definition route_subpaths :: "string option \<Rightarrow> string \<Rightarrow> response" where
  "route_subpaths = route matcher_subpaths middleware_subpaths"

section \<open>Properties of the host router\<close>

text \<open>
  The test \<open>hostname.startsWith("titles.")\<close> reads the leading label: it holds exactly
  when the host has a dot and the text before its first dot is \<open>titles\<close>
  (\<open>startsWith_label\<close> below).
\<close>

lemma startsWith_Nil [simp]: "startsWith s [] = True"
  by (simp add: startsWith_def)

lemma startsWith_Nil_Cons [simp]: "startsWith [] (d # p) = False"
  by (simp add: startsWith_def)

lemma startsWith_Cons [simp]: "startsWith (c # s) (d # p) = (c = d \<and> startsWith s p)"
  by (simp add: startsWith_def)

lemma startsWith_iff: "startsWith s p \<longleftrightarrow> (\<exists>r. s = p @ r)"
proof
  assume "startsWith s p"
  then have "s = p @ drop (length p) s"
    unfolding startsWith_def by (metis append_take_drop_id)
  then show "\<exists>r. s = p @ r" ..
next
  assume "\<exists>r. s = p @ r"
  then show "startsWith s p" by (auto simp: startsWith_def)
qed

lemma startsWith_label:
  assumes "CHR ''.'' \<notin> set l"
  shows "startsWith s (l @ ''.'') \<longleftrightarrow>
         CHR ''.'' \<in> set s \<and> takeWhile (\<lambda>c. c \<noteq> CHR ''.'') s = l"
proof
  assume "startsWith s (l @ ''.'')"
  then obtain r where s: "s = (l @ ''.'') @ r" unfolding startsWith_iff ..
  from assms have "takeWhile (\<lambda>c. c \<noteq> CHR ''.'') (l @ CHR ''.'' # r) = l"
    by (induction l) auto
  with s show "CHR ''.'' \<in> set s \<and> takeWhile (\<lambda>c. c \<noteq> CHR ''.'') s = l"
    by simp
next
  assume h: "CHR ''.'' \<in> set s \<and> takeWhile (\<lambda>c. c \<noteq> CHR ''.'') s = l"
  then have "s = l @ ''.'' @ tl (dropWhile (\<lambda>c. c \<noteq> CHR ''.'') s)"
    by (induction s arbitrary: l) auto
  then show "startsWith s (l @ ''.'')"
    unfolding startsWith_iff by (metis append.assoc)
qed

lemma favicon_ico_prefix: "startsWith s ''favicon.ico'' \<Longrightarrow> favicon_ico s"
proof -
  assume "startsWith s ''favicon.ico''"
  then obtain r where "s = ''favicon.ico'' @ r" unfolding startsWith_iff ..
  then show ?thesis by (simp add: favicon_ico_def dot_def)
qed

lemma not_matcher_subpaths:
  assumes "startsWith p ''/_next/static'' \<or> startsWith p ''/_next/image''
           \<or> startsWith p ''/favicon.ico''"
  shows "\<not> matcher_subpaths p"
proof (cases p)
  case Nil
  then show ?thesis by (simp add: matcher_subpaths_def)
next
  case (Cons c s)
  from assms Cons have "startsWith s ''_next/static'' \<or> startsWith s ''_next/image''
           \<or> startsWith s ''favicon.ico''" by auto
  then have "excluded s"
    unfolding excluded_def using favicon_ico_prefix by blast
  with Cons show ?thesis by (simp add: matcher_subpaths_def)
qed

lemma middleware_fixed_root:
  assumes "startsWith (hostname_of (host_header h)) sub" and "target \<noteq> ''/''"
  shows "middleware_fixed sub target h ''/'' = Rewrite target"
  using assms by (simp add: middleware_fixed_def Let_def)

lemma middleware_fixed_other_host:
  "\<not> startsWith (hostname_of (host_header h)) sub \<Longrightarrow> middleware_fixed sub target h p = Next"
  by (simp add: middleware_fixed_def Let_def)

lemma middleware_fixed_static:
  "startsWith p ''/_next'' \<or> p = ''/favicon.ico'' \<or> startsWith p ''/public/''
   \<Longrightarrow> middleware_fixed sub target h p = Next"
  by (simp add: middleware_fixed_def Let_def)


text \<open>
  C3, as stated, at the third middleware: on the matching subdomain a path under
  \<open>/public/\<close> is accepted by the matcher and rewritten under the target page.
\<close>

theorem route_subpaths_public_counterexample:
  "startsWith ''/public/logo.png'' ''/public/'' \<and>
   route_subpaths (Some ''titles.example.com'') ''/public/logo.png''
     = Rewrite ''/titles/public/logo.png'' \<and>
   route_subpaths (Some ''titles.example.com'') ''/public/logo.png'' \<noteq> Next"
  by (simp add: route_subpaths_def route_def matcher_subpaths_def excluded_def
      favicon_ico_def middleware_subpaths_def host_header_def dot_def)

text \<open>
  C3, amended. Throughout, the path is the \<open>pathname\<close> the middleware reads from
  \<open>request.nextUrl\<close>, not the path of the request as sent: for a data request
  (\<open>/_next/data/<buildId>/....json\<close>) that is the path of the page, so such a request is
  routed as its page is. For the two middlewares with a fixed target, under any matcher
  \<open>m\<close>: on the matching subdomain the pathname \<open>/\<close> (when the matcher accepts it) is
  rewritten to the target page; on any other host every pathname passes through; and a
  pathname under \<open>/_next\<close>, the pathname \<open>/favicon.ico\<close> and a pathname under
  \<open>/public/\<close> pass through on every host. For the middleware that keeps sub-paths, the
  first two hold as well; a pathname under \<open>/_next/static\<close>, \<open>/_next/image\<close> or
  \<open>/favicon.ico\<close>, which its matcher leaves out, and a pathname under \<open>/titles\<close> pass
  through on every host; and on the matching subdomain every other pathname the matcher
  accepts, those under \<open>/public/\<close> and the rest of \<open>/_next\<close> among them, is rewritten to
  \<open>/titles\<close> followed by the pathname.
\<close>

theorem host_router_routes:
  "(m ''/'' \<and> startsWith (hostname_of (host_header h)) ''titles.''
      \<longrightarrow> route m middleware_titles h ''/'' = Rewrite ''/titles'') \<and>
   (\<not> startsWith (hostname_of (host_header h)) ''titles.''
      \<longrightarrow> route m middleware_titles h pathname = Next) \<and>
   (startsWith pathname ''/_next'' \<or> pathname = ''/favicon.ico''
      \<or> startsWith pathname ''/public/''
      \<longrightarrow> route m middleware_titles h pathname = Next) \<and>
   (m ''/'' \<and> startsWith (hostname_of (host_header h)) ''topics.''
      \<longrightarrow> route m middleware_topics h ''/'' = Rewrite ''/topics'') \<and>
   (\<not> startsWith (hostname_of (host_header h)) ''topics.''
      \<longrightarrow> route m middleware_topics h pathname = Next) \<and>
   (startsWith pathname ''/_next'' \<or> pathname = ''/favicon.ico''
      \<or> startsWith pathname ''/public/''
      \<longrightarrow> route m middleware_topics h pathname = Next) \<and>
   (startsWith (host_header h) ''titles.''
      \<longrightarrow> route_subpaths h ''/'' = Rewrite ''/titles'') \<and>
   (\<not> startsWith (host_header h) ''titles.''
      \<longrightarrow> route_subpaths h pathname = Next) \<and>
   (startsWith pathname ''/_next/static'' \<or> startsWith pathname ''/_next/image''
      \<or> startsWith pathname ''/favicon.ico'' \<or> startsWith pathname ''/titles''
      \<longrightarrow> route_subpaths h pathname = Next) \<and>
   (startsWith (host_header h) ''titles.'' \<and> matcher_subpaths pathname
      \<and> pathname \<noteq> ''/'' \<and> \<not> startsWith pathname ''/titles''
      \<longrightarrow> route_subpaths h pathname = Rewrite (''/titles'' @ pathname))"
proof (intro conjI impI)
  assume "m ''/'' \<and> startsWith (hostname_of (host_header h)) ''titles.''"
  then show "route m middleware_titles h ''/'' = Rewrite ''/titles''"
    by (simp add: route_def middleware_titles_def middleware_fixed_root)
next
  assume "\<not> startsWith (hostname_of (host_header h)) ''titles.''"
  then show "route m middleware_titles h pathname = Next"
    by (simp add: route_def middleware_titles_def middleware_fixed_other_host)
next
  assume "startsWith pathname ''/_next'' \<or> pathname = ''/favicon.ico''
      \<or> startsWith pathname ''/public/''"
  then show "route m middleware_titles h pathname = Next"
    by (simp only: route_def middleware_titles_def middleware_fixed_static if_cancel)
next
  assume "m ''/'' \<and> startsWith (hostname_of (host_header h)) ''topics.''"
  then show "route m middleware_topics h ''/'' = Rewrite ''/topics''"
    by (simp add: route_def middleware_topics_def middleware_fixed_root)
next
  assume "\<not> startsWith (hostname_of (host_header h)) ''topics.''"
  then show "route m middleware_topics h pathname = Next"
    by (simp add: route_def middleware_topics_def middleware_fixed_other_host)
next
  assume "startsWith pathname ''/_next'' \<or> pathname = ''/favicon.ico''
      \<or> startsWith pathname ''/public/''"
  then show "route m middleware_topics h pathname = Next"
    by (simp only: route_def middleware_topics_def middleware_fixed_static if_cancel)
next
  assume "startsWith (host_header h) ''titles.''"
  then show "route_subpaths h ''/'' = Rewrite ''/titles''"
    by (simp add: route_subpaths_def route_def matcher_subpaths_def excluded_def
        favicon_ico_def middleware_subpaths_def)
next
  assume "\<not> startsWith (host_header h) ''titles.''"
  then show "route_subpaths h pathname = Next"
    by (simp add: route_subpaths_def route_def middleware_subpaths_def)
next
  assume h: "startsWith pathname ''/_next/static'' \<or> startsWith pathname ''/_next/image''
      \<or> startsWith pathname ''/favicon.ico'' \<or> startsWith pathname ''/titles''"
  show "route_subpaths h pathname = Next"
  proof (cases "startsWith pathname ''/titles''")
    case True
    then have "pathname \<noteq> ''/''" and "pathname \<noteq> ''''" by auto
    with True show ?thesis
      by (simp add: route_subpaths_def route_def middleware_subpaths_def)
  next
    case False
    with h have "\<not> matcher_subpaths pathname" by (intro not_matcher_subpaths) blast
    then show ?thesis by (simp add: route_subpaths_def route_def)
  qed
next
  assume "startsWith (host_header h) ''titles.'' \<and> matcher_subpaths pathname
      \<and> pathname \<noteq> ''/'' \<and> \<not> startsWith pathname ''/titles''"
  moreover from this have "pathname \<noteq> ''''" by (auto simp: matcher_subpaths_def)
  ultimately show "route_subpaths h pathname = Rewrite (''/titles'' @ pathname)"
    by (simp add: route_subpaths_def route_def middleware_subpaths_def)
qed

theorem host_router_routes_witness:
  "route (\<lambda>p. True) middleware_topics (Some ''topics.example.com'') ''/'' = Rewrite ''/topics'' \<and>
   route (\<lambda>p. True) middleware_topics (Some ''example.com'') ''/about'' = Next \<and>
   route (\<lambda>p. True) middleware_topics (Some ''topics.example.com'') ''/_next/static/x.js'' = Next \<and>
   route (\<lambda>p. True) middleware_titles (Some ''titles.example.com:3000'') ''/'' = Rewrite ''/titles'' \<and>
   route (\<lambda>p. True) middleware_titles (Some ''example.com'') ''/about'' = Next \<and>
   route (\<lambda>p. True) middleware_titles (Some ''titles.example.com:3000'') ''/public/logo.png'' = Next \<and>
   route_subpaths (Some ''titles.example.com'') ''/'' = Rewrite ''/titles'' \<and>
   route_subpaths (Some ''example.com'') ''/about'' = Next \<and>
   route_subpaths (Some ''titles.example.com'') ''/_next/static/x.js'' = Next \<and>
   route_subpaths (Some ''titles.example.com'') ''/titles/new'' = Next \<and>
   route_subpaths (Some ''titles.example.com'') ''/about'' = Rewrite ''/titles/about''"
proof -
  have a: "startsWith (hostname_of (host_header (Some ''topics.example.com''))) ''topics.''"
    by (simp add: hostname_of_def host_header_def)
  have b: "\<not> startsWith (hostname_of (host_header (Some ''example.com''))) ''topics.''"
    by (simp add: hostname_of_def host_header_def)
  have c: "startsWith ''/_next/static/x.js'' ''/_next''" by simp
  have d: "startsWith (hostname_of (host_header (Some ''titles.example.com:3000''))) ''titles.''"
    by (simp add: hostname_of_def host_header_def)
  have e: "\<not> startsWith (hostname_of (host_header (Some ''example.com''))) ''titles.''"
    by (simp add: hostname_of_def host_header_def)
  have f: "startsWith ''/public/logo.png'' ''/public/''" by simp
  have g: "startsWith (host_header (Some ''titles.example.com'')) ''titles.''"
    by (simp add: host_header_def)
  have i: "\<not> startsWith (host_header (Some ''example.com'')) ''titles.''"
    by (simp add: host_header_def)
  have j: "startsWith ''/_next/static/x.js'' ''/_next/static''" by simp
  have k: "startsWith ''/titles/new'' ''/titles''" by simp
  have l: "matcher_subpaths ''/about'' \<and> ''/about'' \<noteq> ''/'' \<and> \<not> startsWith ''/about'' ''/titles''"
    by (simp add: matcher_subpaths_def excluded_def favicon_ico_def dot_def)
  note t1 = host_router_routes [of "\<lambda>p. True" "Some ''topics.example.com''" "''/_next/static/x.js''"]
  note t2 = host_router_routes [of "\<lambda>p. True" "Some ''example.com''" "''/about''"]
  note t3 = host_router_routes [of "\<lambda>p. True" "Some ''titles.example.com:3000''" "''/public/logo.png''"]
  note t4 = host_router_routes [of "\<lambda>p. True" "Some ''titles.example.com''" "''/_next/static/x.js''"]
  note t5 = host_router_routes [of "\<lambda>p. True" "Some ''titles.example.com''" "''/titles/new''"]
  note t6 = host_router_routes [of "\<lambda>p. True" "Some ''titles.example.com''" "''/about''"]
  have "route (\<lambda>p. True) middleware_topics (Some ''topics.example.com'') ''/'' = Rewrite ''/topics''"
    using t1 a by simp
  moreover have "route (\<lambda>p. True) middleware_topics (Some ''example.com'') ''/about'' = Next"
    using t2 b by simp
  moreover have "route (\<lambda>p. True) middleware_topics (Some ''topics.example.com'') ''/_next/static/x.js'' = Next"
    using t1 c by simp
  moreover have "route (\<lambda>p. True) middleware_titles (Some ''titles.example.com:3000'') ''/'' = Rewrite ''/titles''"
    using t3 d by simp
  moreover have "route (\<lambda>p. True) middleware_titles (Some ''example.com'') ''/about'' = Next"
    using t2 e by simp
  moreover have "route (\<lambda>p. True) middleware_titles (Some ''titles.example.com:3000'') ''/public/logo.png'' = Next"
    using t3 f by simp
  moreover have "route_subpaths (Some ''titles.example.com'') ''/'' = Rewrite ''/titles''"
    using t4 g by simp
  moreover have "route_subpaths (Some ''example.com'') ''/about'' = Next"
    using t2 i by simp
  moreover have "route_subpaths (Some ''titles.example.com'') ''/_next/static/x.js'' = Next"
    using t4 j by simp
  moreover have "route_subpaths (Some ''titles.example.com'') ''/titles/new'' = Next"
    using t5 k by simp
  moreover have "route_subpaths (Some ''titles.example.com'') ''/about'' = Rewrite ''/titles/about''"
    using t6 g l by simp
  ultimately show ?thesis by (intro conjI)
qed

section \<open>Taxonomy view (\<open>TopicsPage\<close>)\<close>

text \<open>
  There are three versions of the page: \<open>src/app/topics/page.tsx\<close>, which lists the
  examples as links; a page that shows each example as a preview card; and the titles
  page, which also passes every label through the emphasis formatter. They share the
  order of the topics and the two toggles, and differ in the state they start from and
  in how they read the subtypes of a topic.
\<close>

subsection \<open>The document\<close>

text \<open>
  \<open>database.json\<close> is cast to the declared types without a check, so a record read from
  it may lack a field its type declares: an absent field is \<open>None\<close>.
\<close>

record Subtype =
  subtype_type :: string
  examples :: "string list option"

record Topic =
  topic_type :: string
  subtypes :: "Subtype list option"

subsection \<open>The order of the topics\<close>

text \<open>
  \<open>Array.prototype.sort\<close> with a comparison function, as a stable insertion sort: an
  element goes before the first element it does not compare greater than. The standard
  fixes the result of a sort with a consistent comparison function (it is sorted and
  stable), and this is that result.
\<close>

fun insert_by :: "('a \<Rightarrow> 'a \<Rightarrow> 'n::linordered_ab_group_add) \<Rightarrow> 'a \<Rightarrow> 'a list \<Rightarrow> 'a list" where
  "insert_by cmp x [] = [x]"
| "insert_by cmp x (y # ys) =
     (if cmp x y \<le> 0 then x # y # ys else y # insert_by cmp x ys)"

definition sort_by :: "('a \<Rightarrow> 'a \<Rightarrow> 'n::linordered_ab_group_add) \<Rightarrow> 'a list \<Rightarrow> 'a list" where
  "sort_by cmp xs = foldr (insert_by cmp) xs []"

text \<open>
  The \<open>topics\<close> of the page: the entries of the document, sorted by
  \<open>([a], [b]) => Number(a) - Number(b)\<close>, then their values. \<open>Number\<close> is the conversion
  of the language from a string to a number and is a parameter here, with values
  in any ordered group: what follows holds for every conversion that gives each key a
  number.
\<close>

definition compare_keys :: "(string \<Rightarrow> 'n::linordered_ab_group_add) \<Rightarrow> string \<times> 'v \<Rightarrow> string \<times> 'v \<Rightarrow> 'n" where
  "compare_keys Number a b = Number (fst a) - Number (fst b)"

definition sorted_entries :: "(string \<Rightarrow> 'n::linordered_ab_group_add) \<Rightarrow> (string \<times> 'v) list \<Rightarrow> (string \<times> 'v) list" where
  "sorted_entries Number entries = sort_by (compare_keys Number) entries"

definition topics_of :: "(string \<Rightarrow> 'n::linordered_ab_group_add) \<Rightarrow> (string \<times> 'v) list \<Rightarrow> 'v list" where
  "topics_of Number entries = map snd (sorted_entries Number entries)"

text \<open>
  The decimal notation of an index, as a template literal writes it, and the decimal
  reading of a string of digits, which is what \<open>Number\<close> gives for such a key.
\<close>

definition digit_char :: "nat \<Rightarrow> char" where
  "digit_char d = char_of (48 + d)"

function show_nat :: "nat \<Rightarrow> string" where
  "show_nat n = (if n < 10 then [digit_char n] else show_nat (n div 10) @ [digit_char (n mod 10)])"
  by pat_completeness auto
termination
  by (relation "measure id") auto

declare show_nat.simps [simp del]

definition digit_val :: "char \<Rightarrow> int" where
  "digit_val c = int (of_char c) - 48"

definition decimal :: "string \<Rightarrow> int" where
  "decimal s = foldl (\<lambda>a c. 10 * a + digit_val c) 0 s"

subsection \<open>Expansion state\<close>

text \<open>
  The two state variables of the page, \<open>Record<number, boolean>\<close> and
  \<open>Record<string, boolean>\<close>. A key that was never written reads as \<open>undefined\<close>.
\<close>

record page_state =
  expandedTopics :: "nat \<rightharpoonup> bool"
  expandedSubtypes :: "string \<rightharpoonup> bool"

text \<open>\<open>!!m[k]\<close>: whether the entry is there and true.\<close>

definition flag :: "bool option \<Rightarrow> bool" where
  "flag v = (case v of None \<Rightarrow> False | Some b \<Rightarrow> b)"

definition toggleTopic :: "nat \<Rightarrow> page_state \<Rightarrow> page_state" where
  "toggleTopic idx prev =
     prev\<lparr>expandedTopics := (expandedTopics prev)(idx \<mapsto> \<not> flag (expandedTopics prev idx))\<rparr>"

text \<open>The key \<open>`${topicIdx}-${subtypeIdx}`\<close>.\<close>

definition subtype_key :: "nat \<Rightarrow> nat \<Rightarrow> string" where
  "subtype_key topicIdx subtypeIdx = show_nat topicIdx @ ''-'' @ show_nat subtypeIdx"

definition toggleSubtype :: "nat \<Rightarrow> nat \<Rightarrow> page_state \<Rightarrow> page_state" where
  "toggleSubtype topicIdx subtypeIdx prev =
     (let key = subtype_key topicIdx subtypeIdx
      in prev\<lparr>expandedSubtypes := (expandedSubtypes prev)(key \<mapsto> \<not> flag (expandedSubtypes prev key))\<rparr>)"

text \<open>\<open>xs.map((x, i) => ...)\<close> and \<open>xs.forEach((x, i) => ...)\<close>: each item with its index.\<close>

definition map_index :: "(nat \<Rightarrow> 'a \<Rightarrow> 'b) \<Rightarrow> 'a list \<Rightarrow> 'b list" where
  "map_index f xs = map (\<lambda>(i, x). f i x) (enumerate 0 xs)"

text \<open>\<open>topic.subtypes ?? []\<close>.\<close>

definition subtypes_or_empty :: "Topic \<Rightarrow> Subtype list" where
  "subtypes_or_empty topic = (case subtypes topic of None \<Rightarrow> [] | Some subs \<Rightarrow> subs)"

text \<open>
  The states the three pages start from: everything collapsed (\<open>src/app/topics/page.tsx\<close>),
  everything expanded (the page with previews), and only the first topic expanded
  (the titles page).
\<close>

definition initial_collapsed :: page_state where
  "initial_collapsed = \<lparr>expandedTopics = Map.empty, expandedSubtypes = Map.empty\<rparr>"

definition initial_expanded :: "Topic list \<Rightarrow> page_state" where
  "initial_expanded topics =
     \<lparr>expandedTopics = map_of (map_index (\<lambda>idx _. (idx, True)) topics),
      expandedSubtypes = map_of (concat (map_index (\<lambda>tIdx topic.
          map_index (\<lambda>sIdx _. (subtype_key tIdx sIdx, True)) (subtypes_or_empty topic)) topics))\<rparr>"

definition initial_first_open :: "Topic list \<Rightarrow> page_state" where
  "initial_first_open topics =
     \<lparr>expandedTopics = (if length topics > 0 then [0 \<mapsto> True] else Map.empty),
      expandedSubtypes = Map.empty\<rparr>"

subsection \<open>What the page renders\<close>

text \<open>
  The rendered page, reduced to what the logic decides: per topic its label, whether it
  is open and, when open, either the text \<open>No subtypes\<close> or the list of its subtypes; per
  subtype its label, whether it is open and, when open, either the text \<open>No examples\<close> or
  its example URLs (shown as links or preview cards). A label is plain text or the nodes
  of the emphasis formatter.
\<close>

datatype error = TypeError

datatype label = Text string | Formatted "node list"

datatype examples_view = NoExamples | Examples "string list"

datatype subtype_view = SubtypeItem label bool "examples_view option"

datatype subtypes_view = NoSubtypes | SubtypeItems "subtype_view list"

datatype topic_view = TopicItem label bool "subtypes_view option"

fun topic_label :: "topic_view \<Rightarrow> label" where
  "topic_label (TopicItem l isOpen body) = l"

text \<open>\<open>sub.examples && sub.examples.length > 0 ? ... : No examples\<close>.\<close>

definition examples_view_of :: "Subtype \<Rightarrow> examples_view" where
  "examples_view_of sub =
     (case examples sub of
        None \<Rightarrow> NoExamples
      | Some ex \<Rightarrow> if length ex > 0 then Examples ex else NoExamples)"

definition render_subtype :: "(string \<Rightarrow> label) \<Rightarrow> page_state \<Rightarrow> nat \<Rightarrow> nat \<Rightarrow> Subtype \<Rightarrow> subtype_view" where
  "render_subtype lab st tIdx sIdx sub =
     (let key = subtype_key tIdx sIdx;
          subOpen = flag (expandedSubtypes st key)
      in SubtypeItem (lab (subtype_type sub)) subOpen
           (if subOpen then Some (examples_view_of sub) else None))"

definition render_subtypes :: "(string \<Rightarrow> label) \<Rightarrow> page_state \<Rightarrow> nat \<Rightarrow> Subtype list \<Rightarrow> subtypes_view" where
  "render_subtypes lab st tIdx subs =
     (if length subs = 0 then NoSubtypes
      else SubtypeItems (map_index (render_subtype lab st tIdx) subs))"

text \<open>
  A topic on the page with previews and on the titles page, which read
  \<open>topic.subtypes ?? []\<close>. The two differ in the label: the text itself, or the text
  through the emphasis formatter.
\<close>

definition render_topic :: "(string \<Rightarrow> label) \<Rightarrow> page_state \<Rightarrow> nat \<Rightarrow> Topic \<Rightarrow> topic_view" where
  "render_topic lab st tIdx topic =
     (let isOpen = flag (expandedTopics st tIdx);
          subs = subtypes_or_empty topic
      in TopicItem (lab (topic_type topic)) isOpen
           (if isOpen then Some (render_subtypes lab st tIdx subs) else None))"

text \<open>
  \<open>src/app/topics/page.tsx\<close> reads \<open>topic.subtypes.length\<close> when the topic is open, which
  throws a \<open>TypeError\<close> on an absent field.
\<close>

definition render_topic_strict :: "page_state \<Rightarrow> nat \<Rightarrow> Topic \<Rightarrow> error + topic_view" where
  "render_topic_strict st tIdx topic =
     (let isOpen = flag (expandedTopics st tIdx)
      in if isOpen then
           (case subtypes topic of
              None \<Rightarrow> Inl TypeError
            | Some subs \<Rightarrow>
                Inr (TopicItem (Text (topic_type topic)) isOpen
                       (Some (render_subtypes Text st tIdx subs))))
         else Inr (TopicItem (Text (topic_type topic)) isOpen None))"

text \<open>The items of a list in order, up to the first one that throws.\<close>

fun collect :: "(error + 'a) list \<Rightarrow> error + 'a list" where
  "collect [] = Inr []"
| "collect (Inl e # rest) = Inl e"
| "collect (Inr v # rest) = (case collect rest of Inl e \<Rightarrow> Inl e | Inr vs \<Rightarrow> Inr (v # vs))"

definition TopicsPage_links :: "(string \<Rightarrow> 'n::linordered_ab_group_add) \<Rightarrow> (string \<times> Topic) list
    \<Rightarrow> page_state \<Rightarrow> error + topic_view list" where
  "TopicsPage_links Number topicsData st =
     collect (map_index (render_topic_strict st) (topics_of Number topicsData))"

definition TopicsPage_previews :: "(string \<Rightarrow> 'n::linordered_ab_group_add) \<Rightarrow> (string \<times> Topic) list
    \<Rightarrow> page_state \<Rightarrow> topic_view list" where
  "TopicsPage_previews Number topicsData st =
     map_index (render_topic Text st) (topics_of Number topicsData)"

definition TopicsPage_titles :: "(string \<Rightarrow> 'n::linordered_ab_group_add) \<Rightarrow> (string \<times> Topic) list
    \<Rightarrow> page_state \<Rightarrow> topic_view list" where
  "TopicsPage_titles Number topicsData st =
     map_index (render_topic (\<lambda>s. Formatted (formatEmphasis s)) st) (topics_of Number topicsData)"

subsection \<open>Properties of the expansion state\<close>

lemma digit_val_digit_char: "d < 10 \<Longrightarrow> digit_val (digit_char d) = int d"
  by (simp add: digit_val_def digit_char_def)

lemma decimal_snoc: "decimal (s @ [c]) = 10 * decimal s + digit_val c"
  by (simp add: decimal_def)

lemma decimal_show_nat: "decimal (show_nat n) = int n"
proof (induction n rule: show_nat.induct)
  case (1 n)
  show ?case
  proof (cases "n < 10")
    case True
    then show ?thesis by (simp add: show_nat.simps [of n] decimal_def digit_val_digit_char)
  next
    case False
    then have "show_nat n = show_nat (n div 10) @ [digit_char (n mod 10)]"
      by (simp add: show_nat.simps [of n])
    then have "decimal (show_nat n) = 10 * decimal (show_nat (n div 10)) + digit_val (digit_char (n mod 10))"
      by (simp only: decimal_snoc)
    also have "\<dots> = 10 * int (n div 10) + int (n mod 10)"
      using 1 False by (simp add: digit_val_digit_char)
    also have "\<dots> = int n" by (simp add: zdiv_int zmod_int)
    finally show ?thesis .
  qed
qed

lemma show_nat_inj: "show_nat m = show_nat n \<Longrightarrow> m = n"
  by (metis decimal_show_nat of_nat_eq_iff)

lemma digit_char_not_dash: "d < 10 \<Longrightarrow> digit_char d \<noteq> CHR ''-''"
proof
  assume "d < 10" and "digit_char d = CHR ''-''"
  then have "digit_val (digit_char d) = digit_val CHR ''-''" by simp
  with \<open>d < 10\<close> show False by (simp add: digit_val_digit_char) (simp add: digit_val_def)
qed

lemma dash_notin_show_nat: "CHR ''-'' \<notin> set (show_nat n)"
proof (induction n rule: show_nat.induct)
  case (1 n)
  show ?case
  proof (cases "n < 10")
    case True
    then show ?thesis using digit_char_not_dash [of n] by (simp add: show_nat.simps [of n])
  next
    case False
    then have "show_nat n = show_nat (n div 10) @ [digit_char (n mod 10)]"
      by (simp add: show_nat.simps [of n])
    moreover have "digit_char (n mod 10) \<noteq> CHR ''-''" by (rule digit_char_not_dash) simp
    ultimately show ?thesis using 1 False by simp
  qed
qed

lemma append_sep_inj:
  assumes "d \<notin> set a" and "d \<notin> set a'" and "a @ d # b = a' @ d # b'"
  shows "a = a' \<and> b = b'"
  using assms
proof (induction a arbitrary: a')
  case Nil
  then show ?case by (cases a') auto
next
  case (Cons x a)
  then show ?case by (cases a') auto
qed

lemma subtype_key_inj:
  assumes "subtype_key t s = subtype_key t' s'"
  shows "t = t' \<and> s = s'"
proof -
  from assms have "show_nat t @ CHR ''-'' # show_nat s = show_nat t' @ CHR ''-'' # show_nat s'"
    by (simp add: subtype_key_def)
  then have "show_nat t = show_nat t' \<and> show_nat s = show_nat s'"
    using append_sep_inj [OF dash_notin_show_nat dash_notin_show_nat] by blast
  then show ?thesis by (simp add: show_nat_inj)
qed

text \<open>
  C5. Toggling a topic flips the flag of that topic index, leaves the entry of every
  other topic index as it was and leaves all subtype entries as they were. Toggling a
  subtype flips the flag of the key of that pair, leaves the entry of the key of every
  other pair as it was and leaves all topic entries as they were.
\<close>

theorem toggle_frame:
  "flag (expandedTopics (toggleTopic i st) i) = (\<not> flag (expandedTopics st i)) \<and>
   (j \<noteq> i \<longrightarrow> expandedTopics (toggleTopic i st) j = expandedTopics st j) \<and>
   expandedSubtypes (toggleTopic i st) = expandedSubtypes st \<and>
   flag (expandedSubtypes (toggleSubtype t s st) (subtype_key t s))
     = (\<not> flag (expandedSubtypes st (subtype_key t s))) \<and>
   ((t', s') \<noteq> (t, s) \<longrightarrow>
      expandedSubtypes (toggleSubtype t s st) (subtype_key t' s')
        = expandedSubtypes st (subtype_key t' s')) \<and>
   expandedTopics (toggleSubtype t s st) = expandedTopics st"
proof (intro conjI impI)
  show "flag (expandedTopics (toggleTopic i st) i) = (\<not> flag (expandedTopics st i))"
    by (simp add: toggleTopic_def flag_def)
next
  assume "j \<noteq> i"
  then show "expandedTopics (toggleTopic i st) j = expandedTopics st j"
    by (simp add: toggleTopic_def)
next
  show "expandedSubtypes (toggleTopic i st) = expandedSubtypes st"
    by (simp add: toggleTopic_def)
next
  show "flag (expandedSubtypes (toggleSubtype t s st) (subtype_key t s))
     = (\<not> flag (expandedSubtypes st (subtype_key t s)))"
    by (simp add: toggleSubtype_def Let_def flag_def)
next
  assume "(t', s') \<noteq> (t, s)"
  then have "subtype_key t' s' \<noteq> subtype_key t s"
    using subtype_key_inj by blast
  then show "expandedSubtypes (toggleSubtype t s st) (subtype_key t' s')
        = expandedSubtypes st (subtype_key t' s')"
    by (simp add: toggleSubtype_def Let_def)
next
  show "expandedTopics (toggleSubtype t s st) = expandedTopics st"
    by (simp add: toggleSubtype_def Let_def)
qed

theorem toggle_frame_witness:
  "flag (expandedSubtypes (toggleSubtype 0 1 initial_collapsed) (subtype_key 0 1)) \<and>
   expandedSubtypes (toggleSubtype 0 1 initial_collapsed) (subtype_key 0 0)
     = expandedSubtypes initial_collapsed (subtype_key 0 0) \<and>
   expandedSubtypes (toggleSubtype 0 1 initial_collapsed) (subtype_key 1 1)
     = expandedSubtypes initial_collapsed (subtype_key 1 1) \<and>
   flag (expandedTopics (toggleTopic 0 initial_collapsed) 0) \<and>
   expandedTopics (toggleTopic 0 initial_collapsed) 1 = expandedTopics initial_collapsed 1"
proof -
  note a = toggle_frame [of 0 initial_collapsed 1 0 1 0 0]
  note b = toggle_frame [of 0 initial_collapsed 1 0 1 1 1]
  have "\<not> flag (expandedSubtypes initial_collapsed (subtype_key 0 1))"
    and "\<not> flag (expandedTopics initial_collapsed 0)"
    by (simp_all add: initial_collapsed_def flag_def)
  with a b show ?thesis by simp
qed

subsection \<open>Properties of the page\<close>


lemma insert_by_insort:
  "insert_by (compare_keys Number) x ys = insort_key (\<lambda>e. Number (fst e)) x ys"
  by (induction ys) (simp_all add: compare_keys_def)

lemma sorted_entries_sort_key:
  "sorted_entries Number entries = sort_key (\<lambda>e. Number (fst e)) entries"
  by (induction entries) (simp_all add: sorted_entries_def sort_by_def insert_by_insort)

lemma length_map_index [simp]: "length (map_index f xs) = length xs"
  by (simp add: map_index_def)

lemma nth_map_index: "i < length xs \<Longrightarrow> map_index f xs ! i = f i (xs ! i)"
  by (simp add: map_index_def nth_enumerate_eq)

lemma map_map_index: "map g (map_index f xs) = map_index (\<lambda>i x. g (f i x)) xs"
  by (simp add: map_index_def split_def comp_def)

lemma map_index_const: "map_index (\<lambda>i x. g x) xs = map g xs"
  by (rule nth_equalityI) (simp_all add: nth_map_index)

lemma topic_label_render_topic: "topic_label (render_topic lab st i t) = lab (topic_type t)"
  by (simp add: render_topic_def Let_def)

lemma topic_label_render_topic_strict:
  "render_topic_strict st i t = Inr v \<Longrightarrow> topic_label v = Text (topic_type t)"
  by (auto simp: render_topic_strict_def Let_def split: if_splits option.splits)

lemma collect_Inr:
  "collect rs = Inr vs \<Longrightarrow> rs = map Inr vs"
proof (induction rs arbitrary: vs rule: collect.induct)
  case 1
  then show ?case by simp
next
  case (2 e rest)
  then show ?case by simp
next
  case (3 v rest)
  then show ?case by (auto split: sum.splits)
qed

lemma links_labels:
  assumes "TopicsPage_links Number entries st = Inr vs"
  shows "map topic_label vs = map (\<lambda>t. Text (topic_type t)) (topics_of Number entries)"
proof -
  let ?ts = "topics_of Number entries"
  from assms have eq: "map_index (render_topic_strict st) ?ts = map Inr vs"
    by (simp add: TopicsPage_links_def collect_Inr)
  then have len: "length vs = length ?ts"
    by (metis length_map length_map_index)
  show ?thesis
  proof (rule nth_equalityI)
    show "length (map topic_label vs) = length (map (\<lambda>t. Text (topic_type t)) ?ts)"
      using len by simp
  next
    fix i assume "i < length (map topic_label vs)"
    then have i: "i < length ?ts" using len by simp
    then have "render_topic_strict st i (?ts ! i) = map_index (render_topic_strict st) ?ts ! i"
      by (simp add: nth_map_index)
    also have "\<dots> = Inr (vs ! i)" using eq i len by simp
    finally have "topic_label (vs ! i) = Text (topic_type (?ts ! i))"
      by (rule topic_label_render_topic_strict)
    with i len show "map topic_label vs ! i = map (\<lambda>t. Text (topic_type t)) ?ts ! i"
      by simp
  qed
qed

text \<open>
  C4. The topics of the page are the values of the document's entries sorted by the
  number of their keys, with the order of the document kept among equal numbers: the
  numbers are ascending along the sorted entries, which are the entries of the document
  in another order. In every expansion state the pages show one item per topic, in this
  order: the order is a function of the document alone, and no toggle changes it.
\<close>

theorem topics_sorted:
  "topics_of Number entries = map snd (sort_key (\<lambda>e. Number (fst e)) entries) \<and>
   sorted (map (\<lambda>e. Number (fst e)) (sorted_entries Number entries)) \<and>
   mset (sorted_entries Number entries) = mset entries \<and>
   map topic_label (TopicsPage_previews Number entries st)
     = map (\<lambda>t. Text (topic_type t)) (topics_of Number entries) \<and>
   map topic_label (TopicsPage_titles Number entries st)
     = map (\<lambda>t. Formatted (formatEmphasis (topic_type t))) (topics_of Number entries) \<and>
   (TopicsPage_links Number entries st = Inr vs \<longrightarrow>
      map topic_label vs = map (\<lambda>t. Text (topic_type t)) (topics_of Number entries))"
proof (intro conjI impI)
  show "topics_of Number entries = map snd (sort_key (\<lambda>e. Number (fst e)) entries)"
    by (simp add: topics_of_def sorted_entries_sort_key)
next
  show "sorted (map (\<lambda>e. Number (fst e)) (sorted_entries Number entries))"
    by (simp add: sorted_entries_sort_key)
next
  show "mset (sorted_entries Number entries) = mset entries"
    by (simp add: sorted_entries_sort_key)
next
  show "map topic_label (TopicsPage_previews Number entries st)
     = map (\<lambda>t. Text (topic_type t)) (topics_of Number entries)"
    by (simp add: TopicsPage_previews_def map_map_index topic_label_render_topic map_index_const)
next
  show "map topic_label (TopicsPage_titles Number entries st)
     = map (\<lambda>t. Formatted (formatEmphasis (topic_type t))) (topics_of Number entries)"
    by (simp add: TopicsPage_titles_def map_map_index topic_label_render_topic map_index_const)
next
  assume "TopicsPage_links Number entries st = Inr vs"
  then show "map topic_label vs = map (\<lambda>t. Text (topic_type t)) (topics_of Number entries)"
    by (rule links_labels)
qed


theorem topics_sorted_witness:
  "TopicsPage_links decimal
     [(''10'', \<lparr>topic_type = ''ten'', subtypes = Some []\<rparr>),
      (''2'', \<lparr>topic_type = ''two'', subtypes = Some []\<rparr>),
      (''1'', \<lparr>topic_type = ''one'', subtypes = Some []\<rparr>)] initial_collapsed
     = Inr [TopicItem (Text ''one'') False None, TopicItem (Text ''two'') False None,
            TopicItem (Text ''ten'') False None] \<and>
   map (\<lambda>t. Text (topic_type t)) (topics_of decimal
     [(''10'', \<lparr>topic_type = ''ten'', subtypes = Some []\<rparr>),
      (''2'', \<lparr>topic_type = ''two'', subtypes = Some []\<rparr>),
      (''1'', \<lparr>topic_type = ''one'', subtypes = Some []\<rparr>)])
     = [Text ''one'', Text ''two'', Text ''ten'']"
proof -
  let ?db = "[(''10'', \<lparr>topic_type = ''ten'', subtypes = Some []\<rparr>),
      (''2'', \<lparr>topic_type = ''two'', subtypes = Some []\<rparr>),
      (''1'', \<lparr>topic_type = ''one'', subtypes = Some []\<rparr>)]"
  let ?vs = "[TopicItem (Text ''one'') False None, TopicItem (Text ''two'') False None,
            TopicItem (Text ''ten'') False None]"
  have h: "TopicsPage_links decimal ?db initial_collapsed = Inr ?vs"
    by (simp add: TopicsPage_links_def topics_of_def sorted_entries_def sort_by_def
        compare_keys_def decimal_def digit_val_def map_index_def render_topic_strict_def
        initial_collapsed_def flag_def)
  from topics_sorted [of decimal ?db initial_collapsed ?vs] h
  have "map topic_label ?vs = map (\<lambda>t. Text (topic_type t)) (topics_of decimal ?db)"
    by blast
  with h show ?thesis by simp
qed

lemma render_topic_no_subtypes:
  assumes "flag (expandedTopics st i)" and "subtypes t = None \<or> subtypes t = Some []"
  shows "render_topic lab st i t = TopicItem (lab (topic_type t)) True (Some NoSubtypes)"
  using assms by (auto simp: render_topic_def render_subtypes_def subtypes_or_empty_def Let_def)

lemma render_topic_strict_empty:
  assumes "flag (expandedTopics st i)" and "subtypes t = Some []"
  shows "render_topic_strict st i t = Inr (TopicItem (Text (topic_type t)) True (Some NoSubtypes))"
  using assms by (simp add: render_topic_strict_def render_subtypes_def Let_def)

lemma render_topic_strict_absent:
  assumes "flag (expandedTopics st i)" and "subtypes t = None"
  shows "render_topic_strict st i t = Inl TypeError"
  using assms by (simp add: render_topic_strict_def Let_def)

lemma render_subtype_no_examples:
  assumes "flag (expandedSubtypes st (subtype_key i j))"
    and "examples sub = None \<or> examples sub = Some []"
  shows "render_subtype lab st i j sub = SubtypeItem (lab (subtype_type sub)) True (Some NoExamples)"
  using assms by (auto simp: render_subtype_def examples_view_of_def Let_def)

text \<open>
  C2. An open subtype without examples shows \<open>No examples\<close> on every page, and an open
  topic with an empty or absent list of subtypes shows \<open>No subtypes\<close> on the two pages
  that read \<open>topic.subtypes ?? []\<close> (the lemmas above). The page of
  \<open>src/app/topics/page.tsx\<close> reads the length of the absent field instead: for a
  document whose only topic has no \<open>subtypes\<close> field, opening that topic makes the
  render throw, where the other two pages show \<open>No subtypes\<close>.
\<close>

theorem TopicsPage_links_absent_subtypes:
  "TopicsPage_links decimal [(''1'', \<lparr>topic_type = ''T'', subtypes = None\<rparr>)]
     (toggleTopic 0 initial_collapsed) = Inl TypeError \<and>
   TopicsPage_previews decimal [(''1'', \<lparr>topic_type = ''T'', subtypes = None\<rparr>)]
     (initial_expanded [\<lparr>topic_type = ''T'', subtypes = None\<rparr>])
     = [TopicItem (Text ''T'') True (Some NoSubtypes)] \<and>
   TopicsPage_titles decimal [(''1'', \<lparr>topic_type = ''T'', subtypes = None\<rparr>)]
     (initial_first_open [\<lparr>topic_type = ''T'', subtypes = None\<rparr>])
     = [TopicItem (Formatted [Fragment ''T'']) True (Some NoSubtypes)]"
  by (simp add: TopicsPage_links_def TopicsPage_previews_def TopicsPage_titles_def
      topics_of_def sorted_entries_def sort_by_def map_index_def
      render_topic_strict_def render_topic_def render_subtypes_def subtypes_or_empty_def
      toggleTopic_def initial_collapsed_def initial_expanded_def initial_first_open_def flag_def
      formatEmphasis_def split_emphasis_def format_part_def star_def)

section \<open>Link preview (\<open>VideoPreview\<close>)\<close>

text \<open>
  The three state variables of the component, with the values \<open>useState\<close> gives them.
\<close>

record preview_state =
  title :: "string option"
  thumb :: "string option"
  failed :: bool

definition initial_preview :: preview_state where
  "initial_preview = \<lparr>title = None, thumb = None, failed = False\<rparr>"

text \<open>
  What the request can come to. \<open>fetch\<close> rejects (a network error) or gives a response
  with its \<open>ok\<close> flag and a body; \<open>res.json()\<close> rejects on a body that is not JSON and
  gives the parsed value otherwise. Of a parsed value the handler reads the properties
  \<open>title\<close> and \<open>thumbnail_url\<close>, taken as strings as the casts of the source say:
  reading them throws on \<open>null\<close>, and on any other value each is there or not.
\<close>

datatype json = JsonNull | JsonValue "string option" "string option"

datatype body = Malformed | Parsed json

datatype fetch_result = NetworkError | Response bool body

datatype 'a settled = Fulfilled 'a | Rejected

text \<open>\<open>(res) => (res.ok ? res.json() : Promise.reject())\<close>.\<close>

definition on_response :: "bool \<Rightarrow> body \<Rightarrow> json settled" where
  "on_response ok b =
     (if ok then (case b of Malformed \<Rightarrow> Rejected | Parsed j \<Rightarrow> Fulfilled j)
      else Rejected)"

text \<open>
  \<open>(json.title as string) || url\<close> and \<open>(json.thumbnail_url as string) || null\<close>: an
  absent and an empty string are both falsy.
\<close>

definition title_or :: "string option \<Rightarrow> string \<Rightarrow> string" where
  "title_or t url = (case t of None \<Rightarrow> url | Some s \<Rightarrow> if s = [] then url else s)"

definition thumb_or_null :: "string option \<Rightarrow> string option" where
  "thumb_or_null t = (case t of None \<Rightarrow> None | Some s \<Rightarrow> if s = [] then None else Some s)"

text \<open>
  The handler of the parsed value. It returns at once when the effect was cleaned up;
  otherwise it reads the title, which throws on \<open>null\<close> before any state is set, and sets
  title and thumbnail.
\<close>

definition on_json :: "string \<Rightarrow> bool \<Rightarrow> json \<Rightarrow> preview_state \<Rightarrow> preview_state settled" where
  "on_json url cancelled j st =
     (if cancelled then Fulfilled st
      else (case j of
              JsonNull \<Rightarrow> Rejected
            | JsonValue t th \<Rightarrow>
                Fulfilled (st\<lparr>title := Some (title_or t url), thumb := thumb_or_null th\<rparr>)))"

text \<open>The handler of \<open>catch\<close>.\<close>

definition on_error :: "bool \<Rightarrow> preview_state \<Rightarrow> preview_state" where
  "on_error cancelled st = (if cancelled then st else st\<lparr>failed := True\<rparr>)"

text \<open>The clean-up function the effect returns: \<open>() => { cancelled = true; }\<close>.\<close>

definition cleanup :: "bool \<Rightarrow> bool" where
  "cleanup cancelled = True"

text \<open>
  The chain \<open>fetch(endpoint).then(...).then(...).catch(...)\<close> of the effect, from the
  outcome of the request to the state it leaves and the way its last promise settles.
  \<open>c1\<close> and \<open>c2\<close> are the values of \<open>cancelled\<close> that the handler of the parsed value and
  the handler of \<open>catch\<close> read: the clean-up of the effect sets the variable, and nothing
  resets it.
\<close>

definition lookup :: "string \<Rightarrow> fetch_result \<Rightarrow> bool \<Rightarrow> bool \<Rightarrow> preview_state \<Rightarrow> preview_state settled" where
  "lookup url r c1 c2 st =
     (case (case r of NetworkError \<Rightarrow> Rejected | Response ok b \<Rightarrow> on_response ok b) of
        Rejected \<Rightarrow> Fulfilled (on_error c2 st)
      | Fulfilled j \<Rightarrow>
          (case on_json url c1 j st of
             Rejected \<Rightarrow> Fulfilled (on_error c2 st)
           | Fulfilled st' \<Rightarrow> Fulfilled st'))"

text \<open>
  One run of the effect after it has sent the request, as the events that follow: the
  clean-up (the component is removed, or its URL changes) and the arrival of the
  outcome, in any order. The state is the variable \<open>cancelled\<close> of this run and the
  state of the component. The two handlers of an arrival read the same \<open>cancelled\<close>.
\<close>

datatype event = Cleanup | Outcome fetch_result

fun run_effect :: "string \<Rightarrow> event list \<Rightarrow> bool \<times> preview_state \<Rightarrow> bool \<times> preview_state" where
  "run_effect url [] s = s"
| "run_effect url (Cleanup # es) (cancelled, st) = run_effect url es (cleanup cancelled, st)"
| "run_effect url (Outcome r # es) (cancelled, st) =
     (case lookup url r cancelled cancelled st of
        Fulfilled st' \<Rightarrow> run_effect url es (cancelled, st')
      | Rejected \<Rightarrow> (cancelled, st))"

text \<open>
  What the component shows, reduced to the choice it makes: the fall-back link with the
  URL as its text when \<open>failed\<close> is set (a bare link on one page, a card that says
  \<open>No preview\<close> on the other), and otherwise the card with the thumbnail, or the
  placeholder \<open>Loading preview\<close> without one, and \<open>title ?? url\<close>.
\<close>

datatype preview_view = FallbackLink string | PreviewCard "string option" string

definition VideoPreview :: "string \<Rightarrow> preview_state \<Rightarrow> preview_view" where
  "VideoPreview url st =
     (if failed st then FallbackLink url
      else PreviewCard (case thumb st of None \<Rightarrow> None | Some s \<Rightarrow> if s = [] then None else Some s)
             (case title st of None \<Rightarrow> url | Some t \<Rightarrow> t))"

section \<open>Properties of the link preview\<close>

lemma lookup_settles: "lookup url r c1 c2 st \<noteq> Rejected"
  by (simp add: lookup_def split: fetch_result.split settled.split)

text \<open>
  C6. When the request fails (no response, a response that is not \<open>ok\<close>, a body that is
  not JSON, or a body \<open>null\<close> whose properties cannot be read) the effect, not cleaned up,
  sets \<open>failed\<close> and nothing else, and the component shows the fall-back link. Whatever
  the outcome, the last promise of the chain is fulfilled: no rejection leaves it.
\<close>

theorem lookup_failure:
  "lookup url r' c1 c2 st' \<noteq> Rejected \<and>
   (r = NetworkError \<or> r = Response False b \<or> r = Response True Malformed
      \<or> r = Response True (Parsed JsonNull) \<longrightarrow>
    lookup url r False False st = Fulfilled (st\<lparr>failed := True\<rparr>) \<and>
    VideoPreview url (st\<lparr>failed := True\<rparr>) = FallbackLink url)"
proof (intro conjI impI)
  show "lookup url r' c1 c2 st' \<noteq> Rejected" by (rule lookup_settles)
next
  assume "r = NetworkError \<or> r = Response False b \<or> r = Response True Malformed
      \<or> r = Response True (Parsed JsonNull)"
  then show "lookup url r False False st = Fulfilled (st\<lparr>failed := True\<rparr>)"
    by (auto simp: lookup_def on_response_def on_json_def on_error_def)
next
  show "VideoPreview url (st\<lparr>failed := True\<rparr>) = FallbackLink url"
    by (simp add: VideoPreview_def)
qed

theorem lookup_failure_witness:
  "lookup ''https://youtu.be/x'' (Response False (Parsed (JsonValue (Some ''t'') None)))
     False False initial_preview
     = Fulfilled \<lparr>title = None, thumb = None, failed = True\<rparr> \<and>
   VideoPreview ''https://youtu.be/x'' \<lparr>title = None, thumb = None, failed = True\<rparr>
     = FallbackLink ''https://youtu.be/x''"
  using lookup_failure [of "''https://youtu.be/x''" NetworkError False False initial_preview
      "Response False (Parsed (JsonValue (Some ''t'') None))"
      "Parsed (JsonValue (Some ''t'') None)" initial_preview]
  by (simp add: initial_preview_def)

lemma lookup_after_cleanup: "lookup url r True True st = Fulfilled st"
  by (simp add: lookup_def on_response_def on_json_def on_error_def
      split: fetch_result.split body.split)

lemma run_effect_cancelled: "run_effect url es (True, st) = (True, st)"
proof (induction es)
  case Nil
  show ?case by simp
next
  case (Cons e es)
  then show ?case by (cases e) (simp_all add: cleanup_def lookup_after_cleanup)
qed

text \<open>
  C7. Once the effect has been cleaned up, nothing that arrives afterwards changes the
  state of the component: whatever events follow the clean-up, title, thumbnail and
  \<open>failed\<close> stay as they were. For a single outcome: both handlers read the \<open>cancelled\<close>
  that the clean-up has set and return before any setter, whatever the outcome.
\<close>

theorem lookup_cancelled:
  "run_effect url (Cleanup # es) (c, st) = (True, st) \<and>
   lookup url r (cleanup c1) (cleanup c2) st = Fulfilled st"
  by (simp add: cleanup_def run_effect_cancelled lookup_after_cleanup)

text \<open>
  C9, as stated, at a response that is \<open>ok\<close> with the body \<open>null\<close>, which is well-formed
  JSON: reading \<open>json.title\<close> throws, the handler of \<open>catch\<close> sets \<open>failed\<close>, and the
  component shows the fall-back link, not a resolved card.
\<close>

theorem lookup_null_body_counterexample:
  "lookup ''https://youtu.be/x'' (Response True (Parsed JsonNull)) False False initial_preview
     = Fulfilled \<lparr>title = None, thumb = None, failed = True\<rparr> \<and>
   VideoPreview ''https://youtu.be/x'' \<lparr>title = None, thumb = None, failed = True\<rparr>
     = FallbackLink ''https://youtu.be/x''"
  by (simp add: lookup_def on_response_def on_json_def on_error_def initial_preview_def
      VideoPreview_def)

text \<open>
  C9, amended. When the response is \<open>ok\<close> and its body parses to a value other than
  \<open>null\<close>, with \<open>title\<close> and \<open>thumbnail_url\<close> strings where they are present, the effect,
  not cleaned up, sets the title to the \<open>title\<close> of the body when that is present and
  not empty, and to the URL otherwise, and the thumbnail to \<open>thumbnail_url\<close> when that is
  present and not empty, and to none otherwise; \<open>failed\<close> is not touched. From the
  initial state the component then shows the card with this title and thumbnail.
\<close>

theorem lookup_success:
  "lookup url (Response True (Parsed (JsonValue t th))) False c2 st
     = Fulfilled (st\<lparr>title := Some (case t of None \<Rightarrow> url
                                        | Some s \<Rightarrow> if s = [] then url else s),
                     thumb := (case th of None \<Rightarrow> None
                               | Some s \<Rightarrow> if s = [] then None else Some s)\<rparr>) \<and>
   VideoPreview url
     (initial_preview\<lparr>title := Some (case t of None \<Rightarrow> url
                                        | Some s \<Rightarrow> if s = [] then url else s),
                       thumb := (case th of None \<Rightarrow> None
                                 | Some s \<Rightarrow> if s = [] then None else Some s)\<rparr>)
     = PreviewCard (case th of None \<Rightarrow> None | Some s \<Rightarrow> if s = [] then None else Some s)
         (case t of None \<Rightarrow> url | Some s \<Rightarrow> if s = [] then url else s)"
  by (auto simp: lookup_def on_response_def on_json_def title_or_def thumb_or_null_def
      VideoPreview_def initial_preview_def split: option.splits)

theorem lookup_success_witness:
  "lookup ''https://youtu.be/x''
     (Response True (Parsed (JsonValue (Some ''Title'') (Some ''https://i.ytimg.com/x.jpg''))))
     False False initial_preview
     = Fulfilled \<lparr>title = Some ''Title'', thumb = Some ''https://i.ytimg.com/x.jpg'',
                    failed = False\<rparr> \<and>
   lookup ''https://youtu.be/x'' (Response True (Parsed (JsonValue None None)))
     False False initial_preview
     = Fulfilled \<lparr>title = Some ''https://youtu.be/x'', thumb = None, failed = False\<rparr> \<and>
   lookup ''https://youtu.be/x'' (Response True (Parsed (JsonValue (Some '''') (Some ''''))))
     False False initial_preview
     = Fulfilled \<lparr>title = Some ''https://youtu.be/x'', thumb = None, failed = False\<rparr>"
  using lookup_success [of "''https://youtu.be/x''" "Some ''Title''"
      "Some ''https://i.ytimg.com/x.jpg''" False initial_preview]
    lookup_success [of "''https://youtu.be/x''" None None False initial_preview]
    lookup_success [of "''https://youtu.be/x''" "Some ''''" "Some ''''" False initial_preview]
  by (simp add: initial_preview_def)

end
